theory Spec2Isabelle
  imports Complex_Main "HOL-Library.Word" "HOL-Library.Signed_Division" "HOL-Library.AList"
begin

section \<open>Go values used by the block provisioner\<close>

text \<open>
  The block provisioner (\<^verbatim>\<open>pkg/provisioner/block/block.go\<close>) is embedded function by
  function. Go strings are byte sequences, hence \<^typ>\<open>string\<close>. \<^verbatim>\<open>int64\<close> is a 64-bit
  word read through \<^term>\<open>sint\<close>; \<^verbatim>\<open>int\<close> is taken to be 64 bits wide as well (the
  amd64 and arm64 targets), so the conversion \<^verbatim>\<open>int(...)\<close> is the identity.
  Errors and panics are values of the type \<open>error\<close>.
\<close>

type_synonym int64 = "64 word"

text \<open>
  \<open>Error m\<close> is an error built by \<^verbatim>\<open>errors.New\<close> or \<^verbatim>\<open>fmt.Errorf\<close> whose message \<open>m\<close>
  is fully determined; \<open>Errorf_q f a\<close> is \<^verbatim>\<open>fmt.Errorf(f, a)\<close> for a format \<open>f\<close> with the
  single verb \<^verbatim>\<open>%q\<close> and the string argument \<open>a\<close> (its message is given by
  \<open>errorMessage\<close> below); \<open>ExternalError\<close> is an error
  returned by a collaborator (cloud client, metadata service); \<open>Panic\<close> is a run-time
  panic (nil dereference, division by zero).
\<close>

datatype error = Error string | Errorf_q string string | ExternalError string | Panic

subsection \<open>Signed 64-bit division\<close>

text \<open>
  Go's \<^verbatim>\<open>/\<close> on \<^verbatim>\<open>int64\<close> truncates towards zero, panics when the divisor is zero, and
  wraps for the one overflowing quotient.
\<close>

definition div_int64 :: "int64 \<Rightarrow> int64 \<Rightarrow> error + int64" where
  "div_int64 a b = (if b = 0 then Inl Panic else Inr (word_of_int (sint a sdiv sint b)))"

subsection \<open>The string functions the package calls\<close>

text \<open>
  \<^verbatim>\<open>strings.Split(s, sep)\<close> for a one-byte separator, which is what all call sites pass
  (\<^verbatim>\<open>","\<close>, \<^verbatim>\<open>"="\<close>, \<^verbatim>\<open>"."\<close>): the pieces of \<open>s\<close> between the occurrences of the
  separator; one piece more than there are separators, the empty string giving one
  empty piece.
\<close>

fun Split :: "string \<Rightarrow> char \<Rightarrow> string list" where
  "Split [] sep = [[]]"
| "Split (c # s) sep =
     (if c = sep then [] # Split s sep
      else (case Split s sep of [] \<Rightarrow> [[c]] | p # ps \<Rightarrow> (c # p) # ps))"

definition HasSuffix :: "string \<Rightarrow> string \<Rightarrow> bool" where
  "HasSuffix s suffix =
     (length suffix \<le> length s \<and> drop (length s - length suffix) s = suffix)"

text \<open>
  \<^verbatim>\<open>strings.TrimSpace\<close> removes the leading and the trailing white-space code points
  (\<^verbatim>\<open>unicode.IsSpace\<close>). On the bytes of the string, those are the six ASCII ones and
  the UTF-8 encodings of U+0085, U+00A0, U+1680, U+2000 to U+200A, U+2028, U+2029,
  U+202F, U+205F and U+3000; a byte that does not begin, or end, such an encoding
  stops the trimming.
\<close>

definition whiteSpace :: "string list" where
  "whiteSpace =
     [[CHR 0x09], [CHR 0x0A], [CHR 0x0B], [CHR 0x0C], [CHR 0x0D], [CHR 0x20],
      [CHR 0xC2, CHR 0x85], [CHR 0xC2, CHR 0xA0],
      [CHR 0xE1, CHR 0x9A, CHR 0x80],
      [CHR 0xE2, CHR 0x80, CHR 0x80], [CHR 0xE2, CHR 0x80, CHR 0x81],
      [CHR 0xE2, CHR 0x80, CHR 0x82], [CHR 0xE2, CHR 0x80, CHR 0x83],
      [CHR 0xE2, CHR 0x80, CHR 0x84], [CHR 0xE2, CHR 0x80, CHR 0x85],
      [CHR 0xE2, CHR 0x80, CHR 0x86], [CHR 0xE2, CHR 0x80, CHR 0x87],
      [CHR 0xE2, CHR 0x80, CHR 0x88], [CHR 0xE2, CHR 0x80, CHR 0x89],
      [CHR 0xE2, CHR 0x80, CHR 0x8A],
      [CHR 0xE2, CHR 0x80, CHR 0xA8], [CHR 0xE2, CHR 0x80, CHR 0xA9],
      [CHR 0xE2, CHR 0x80, CHR 0xAF], [CHR 0xE2, CHR 0x81, CHR 0x9F],
      [CHR 0xE3, CHR 0x80, CHR 0x80]]"

text \<open>The width in bytes of the white-space code point a string begins, or ends, with; 0 if none.\<close>

definition leadingSpace :: "string \<Rightarrow> nat" where
  "leadingSpace s =
     (case find (\<lambda>w. take (length w) s = w) whiteSpace of
        None \<Rightarrow> 0
      | Some w \<Rightarrow> length w)"

definition trailingSpace :: "string \<Rightarrow> nat" where
  "trailingSpace s =
     (case find (\<lambda>w. length w \<le> length s \<and> drop (length s - length w) s = w) whiteSpace of
        None \<Rightarrow> 0
      | Some w \<Rightarrow> length w)"

function TrimLeft :: "string \<Rightarrow> string" where
  "TrimLeft s = (if leadingSpace s = 0 then s else TrimLeft (drop (leadingSpace s) s))"
  by pat_completeness auto
termination
proof (relation "measure length")
  show "wf (measure length)" by simp
next
  fix s :: string
  assume a: "leadingSpace s \<noteq> 0"
  have "leadingSpace [] = 0" by (simp add: leadingSpace_def whiteSpace_def)
  with a have "s \<noteq> []" by auto
  with a show "(drop (leadingSpace s) s, s) \<in> measure length" by simp
qed

function TrimRight :: "string \<Rightarrow> string" where
  "TrimRight s =
     (if trailingSpace s = 0 then s else TrimRight (take (length s - trailingSpace s) s))"
  by pat_completeness auto
termination
proof (relation "measure length")
  show "wf (measure length)" by simp
next
  fix s :: string
  assume a: "trailingSpace s \<noteq> 0"
  have "trailingSpace [] = 0" by (simp add: trailingSpace_def whiteSpace_def)
  with a have "s \<noteq> []" by auto
  with a show "(take (length s - trailingSpace s) s, s) \<in> measure length" by simp
qed

definition TrimSpace :: "string \<Rightarrow> string" where
  "TrimSpace s = TrimRight (TrimLeft s)"

text \<open>
  \<^verbatim>\<open>strconv.Quote\<close>, which renders the verb \<^verbatim>\<open>%q\<close> of \<^verbatim>\<open>fmt\<close>: the string between double
  quotes, where a double quote and a backslash are preceded by a backslash, a
  printable ASCII byte stands for itself, and an ASCII control byte becomes its
  letter escape or \<^verbatim>\<open>\x\<close> and two hexadecimal digits. What is written for a code point
  that starts with the byte 0x7F or above depends on the UTF-8 decoding and on the
  Unicode tables of the Go release; it is the parameter \<open>other\<close>, which gives, for the
  rest of the input, the text written and the number of bytes read (at least one is
  read).
\<close>

definition lowerhex :: "nat \<Rightarrow> char" where
  "lowerhex n = ''0123456789abcdef'' ! (n mod 16)"

definition escapeControl :: "char \<Rightarrow> string" where
  "escapeControl c =
     (if c = CHR 0x07 then [CHR 0x5C, CHR ''a'']
      else if c = CHR 0x08 then [CHR 0x5C, CHR ''b'']
      else if c = CHR 0x0C then [CHR 0x5C, CHR ''f'']
      else if c = CHR 0x0A then [CHR 0x5C, CHR ''n'']
      else if c = CHR 0x0D then [CHR 0x5C, CHR ''r'']
      else if c = CHR 0x09 then [CHR 0x5C, CHR ''t'']
      else if c = CHR 0x0B then [CHR 0x5C, CHR ''v'']
      else [CHR 0x5C, CHR ''x'', lowerhex (of_char c div 16), lowerhex (of_char c mod 16)])"

fun Quote_loop :: "(string \<Rightarrow> string \<times> nat) \<Rightarrow> string \<Rightarrow> string" where
  "Quote_loop other [] = []"
| "Quote_loop other (c # s) =
     (if c = CHR 0x22 \<or> c = CHR 0x5C then CHR 0x5C # c # Quote_loop other s
      else if (0x20 :: nat) \<le> of_char c \<and> of_char c < (0x7F :: nat) then c # Quote_loop other s
      else if of_char c < (0x20 :: nat) then escapeControl c @ Quote_loop other s
      else fst (other (c # s)) @ Quote_loop other (drop (snd (other (c # s)) - 1) s))"

definition Quote :: "(string \<Rightarrow> string \<times> nat) \<Rightarrow> string \<Rightarrow> string" where
  "Quote other s = CHR 0x22 # Quote_loop other s @ [CHR 0x22]"

text \<open>
  The message of an error, as \<^verbatim>\<open>err.Error()\<close> gives it: for \<open>Errorf_q f a\<close> the format
  \<open>f\<close> with its verb \<^verbatim>\<open>%q\<close> replaced by the quoted \<open>a\<close>. A panic is not an error value
  and has no message.
\<close>

fun Sprintf_q :: "string \<Rightarrow> string \<Rightarrow> string" where
  "Sprintf_q (c # d # format) quoted =
     (if c = CHR ''%'' \<and> d = CHR ''q'' then quoted @ format
      else c # Sprintf_q (d # format) quoted)"
| "Sprintf_q format quoted = format"

fun errorMessage :: "(string \<Rightarrow> string \<times> nat) \<Rightarrow> error \<Rightarrow> string option" where
  "errorMessage other (Error m) = Some m"
| "errorMessage other (Errorf_q f a) = Some (Sprintf_q f (Quote other a))"
| "errorMessage other (ExternalError m) = Some m"
| "errorMessage other Panic = None"

subsection \<open>The process environment\<close>

type_synonym environ = "string \<rightharpoonup> string"

definition Getenv :: "environ \<Rightarrow> string \<Rightarrow> string" where
  "Getenv env key = (case env key of None \<Rightarrow> [] | Some v \<Rightarrow> v)"

definition LookupEnv :: "environ \<Rightarrow> string \<Rightarrow> string option" where
  "LookupEnv env key = env key"

subsection \<open>Quantities\<close>

text \<open>
  \<^verbatim>\<open>resource.Quantity\<close> of the Kubernetes API machinery is a fixed-point number in one
  of two internal representations. The model keeps two things of it: its exact
  \<open>amount\<close>, and \<open>Value\<close>, what the method \<^verbatim>\<open>Value()\<close> returns for it as an \<^verbatim>\<open>int64\<close>.
  The library derives the latter from the representation (the amount rounded up to
  an integer where that fits, and a representation-dependent result where it does
  not, such as 0 for \<^verbatim>\<open>10E\<close>); it is kept as a component of its own, so that what is
  proved below holds whatever the library returns. \<open>Cmp\<close> is the library's three-way
  comparison of the amounts (0 when equal, -1 when the receiver is less, 1 when it
  is greater).
\<close>

datatype Quantity = Quantity (amount: rat) (Value: int64)

definition Cmp :: "Quantity \<Rightarrow> Quantity \<Rightarrow> int" where
  "Cmp q y = (if amount q = amount y then 0 else if amount q < amount y then - 1 else 1)"

section \<open>Data model\<close>

type_synonym freeformTags = "(string \<times> string) list"
type_synonym definedTags = "(string \<times> (string \<times> string) list) list"

text \<open>
  The two tag maps are Go maps that the code builds by assignment and walks with
  \<^verbatim>\<open>range\<close>. They are association lists here, written with \<^const>\<open>AList.update\<close> and
  read with \<^const>\<open>map_of\<close>; the lists the code builds have distinct keys, and a
  \<^verbatim>\<open>range\<close> loop walks them in list order (Go leaves the order open; the results
  below are stated through \<^const>\<open>map_of\<close> and do not depend on it).
\<close>

record AvailabilityDomain =
  ad_Name :: "string option"

record PersistentVolumeClaim =
  pvc_Name :: string
  pvc_Annotations :: "string \<rightharpoonup> string"
  pvc_AccessModes :: "string list"
  pvc_Requests :: "string \<rightharpoonup> Quantity"

record VolumeOptions =
  PersistentVolumeReclaimPolicy :: string
  PVC :: PersistentVolumeClaim
  Parameters :: "string \<rightharpoonup> string"

record CreateVolumeDetails =
  AvailabilityDomain :: "string option"
  CompartmentId :: string
  DisplayName :: string
  SizeInMBs :: int64
  DefinedTags :: definedTags
  FreeformTags :: freeformTags
  SourceDetails :: "string option"

record CreateVolumeRequest =
  CreateVolumeDetails :: CreateVolumeDetails

record Volume =
  Id :: "string option"

record DeleteVolumeRequest =
  VolumeId :: string

record http_Response =
  StatusCode :: int

record DeleteVolumeResponse =
  RawResponse :: "http_Response option"

text \<open>
  The cloud client and the metadata service are collaborators: each operation is a
  function from the request to what the call returns (a Go pair of result and error).
\<close>

record ProvisionerClient =
  CompartmentOCID :: string
  CreateVolume :: "CreateVolumeRequest \<Rightarrow> Volume \<times> error option"
  DeleteVolume :: "DeleteVolumeRequest \<Rightarrow> DeleteVolumeResponse \<times> error option"

record InstanceMetadata =
  Region :: string

record blockProvisioner =
  client :: ProvisionerClient
  metadata_Get :: "InstanceMetadata option \<times> error option"
  volumeRoundingEnabled :: bool
  minVolumeSize :: Quantity

text \<open>
  The constants of the package \<^verbatim>\<open>plugin\<close>, whose source is not part of this
  development, are parameters.
\<close>

record plugin =
  LabelZoneRegion :: string
  LabelZoneFailureDomain :: string
  OCIProvisionerName :: string

record PersistentVolume =
  pv_Name :: string
  pv_Annotations :: "string \<rightharpoonup> string"
  pv_Labels :: "string \<rightharpoonup> string"
  pv_ReclaimPolicy :: string
  pv_AccessModes :: "string list"
  pv_Capacity :: "string \<rightharpoonup> Quantity"
  pv_Driver :: string
  pv_FSType :: string

definition ociVolumeID :: string where
  "ociVolumeID = ''ociVolumeID''"

definition ociVolumeBackupID :: string where
  "ociVolumeBackupID = ''volume.beta.kubernetes.io/oci-volume-source''"

definition ociTagAnnotation :: string where
  "ociTagAnnotation = ''oraclecloud.com/additional-tags''"

definition defaultTagsEnvVar :: string where
  "defaultTagsEnvVar = ''OCI_DEFAULT_TAGS''"

definition volumePrefixEnvVarName :: string where
  "volumePrefixEnvVarName = ''OCI_VOLUME_NAME_PREFIX''"

definition fsType :: string where
  "fsType = ''fsType''"

definition ReadWriteOnce :: string where
  "ReadWriteOnce = ''ReadWriteOnce''"

definition ResourceStorage :: string where
  "ResourceStorage = ''storage''"

definition StatusNotFound :: int where
  "StatusNotFound = 404"

section \<open>Operations\<close>

definition resolveFSType :: "VolumeOptions \<Rightarrow> string" where
  "resolveFSType options =
     (case Parameters options fsType of Some v \<Rightarrow> v | None \<Rightarrow> ''ext4'')"

definition roundUpSize :: "int64 \<Rightarrow> int64 \<Rightarrow> error + int64" where
  "roundUpSize volumeSizeBytes allocationUnitBytes =
     div_int64 (volumeSizeBytes + allocationUnitBytes - 1) allocationUnitBytes"

subsection \<open>parseTags\<close>

definition tagFormatError :: "string \<Rightarrow> error" where
  "tagFormatError tag =
     Errorf_q ''tag format must follow (<namespace>.)<tagkey>=<value>: %q'' tag"

text \<open>The body of the loop over the comma-separated pieces, with its two early returns.\<close>

fun parseTags_loop ::
  "string list \<Rightarrow> definedTags \<times> freeformTags \<Rightarrow> error + definedTags \<times> freeformTags" where
  "parseTags_loop [] (defined, freeform) = Inr (defined, freeform)"
| "parseTags_loop (tag # tags) (defined, freeform) =
     (let parts = Split tag CHR ''=''
      in if length parts \<noteq> 2 then Inl (tagFormatError tag)
         else
           let key = parts ! 0; value = parts ! 1;
               keyParts = Split key CHR ''.''
           in if length keyParts = 1
              then parseTags_loop tags (defined, AList.update key value freeform)
              else if length keyParts = 2
              then
                let namespace = keyParts ! 0; key = keyParts ! 1
                in (case map_of defined namespace of
                      Some namespaceTags \<Rightarrow>
                        parseTags_loop tags
                          (AList.update namespace (AList.update key value namespaceTags)
                             defined, freeform)
                    | None \<Rightarrow>
                        parseTags_loop tags
                          (AList.update namespace (AList.update key value [])
                             (AList.update namespace [] defined), freeform))
              else Inl (tagFormatError tag))"

definition parseTags :: "string \<Rightarrow> error + definedTags \<times> freeformTags" where
  "parseTags tagStr =
     (if tagStr = [] then Inr ([], [])
      else parseTags_loop (Split tagStr CHR '','') ([], []))"

subsection \<open>getTags\<close>

text \<open>The inner loop \<^verbatim>\<open>defaultDefinedTags[namespace][tag] = value\<close> over one namespace.\<close>

fun mergeNamespace :: "(string \<times> string) list \<Rightarrow> (string \<times> string) list \<Rightarrow> (string \<times> string) list" where
  "mergeNamespace [] target = target"
| "mergeNamespace ((tag, value) # tags) target =
     mergeNamespace tags (AList.update tag value target)"

text \<open>The outer loop over the namespaces of the annotation tags.\<close>

fun mergeDefined :: "definedTags \<Rightarrow> definedTags \<Rightarrow> definedTags" where
  "mergeDefined [] defaultDefinedTags = defaultDefinedTags"
| "mergeDefined ((namespace, tags) # definedTags) defaultDefinedTags =
     (let defaultDefinedTags =
            (case map_of defaultDefinedTags namespace of
               None \<Rightarrow> AList.update namespace [] defaultDefinedTags
             | Some _ \<Rightarrow> defaultDefinedTags);
          target = (case map_of defaultDefinedTags namespace of None \<Rightarrow> [] | Some t \<Rightarrow> t)
      in mergeDefined definedTags
           (AList.update namespace (mergeNamespace tags target) defaultDefinedTags))"

text \<open>The loop \<^verbatim>\<open>defaultFreeformTags[tag] = value\<close>.\<close>

fun mergeFreeform :: "freeformTags \<Rightarrow> freeformTags \<Rightarrow> freeformTags" where
  "mergeFreeform [] defaultFreeformTags = defaultFreeformTags"
| "mergeFreeform ((tag, value) # freeformTags) defaultFreeformTags =
     mergeFreeform freeformTags (AList.update tag value defaultFreeformTags)"

text \<open>Reading a Go map of strings at an absent key gives the empty string.\<close>

definition index_map :: "(string \<rightharpoonup> string) \<Rightarrow> string \<Rightarrow> string" where
  "index_map m k = (case m k of None \<Rightarrow> [] | Some v \<Rightarrow> v)"

definition getTags ::
  "environ \<Rightarrow> (string \<rightharpoonup> string) \<Rightarrow> error + definedTags \<times> freeformTags" where
  "getTags env annotations =
     (case parseTags (Getenv env defaultTagsEnvVar) of
        Inl err \<Rightarrow> Inl err
      | Inr (defaultDefinedTags, defaultFreeformTags) \<Rightarrow>
          (case parseTags (index_map annotations ociTagAnnotation) of
             Inl err \<Rightarrow> Inl err
           | Inr (definedTags, freeformTags) \<Rightarrow>
               Inr (mergeDefined definedTags defaultDefinedTags,
                    mergeFreeform freeformTags defaultFreeformTags)))"

subsection \<open>Provision\<close>

text \<open>The loop over the requested access modes; it returns at the first unsupported one.\<close>

fun accessModes_loop :: "string list \<Rightarrow> error option" where
  "accessModes_loop [] = None"
| "accessModes_loop (accessMode # accessModes) =
     (if accessMode \<noteq> ReadWriteOnce
      then Some (Error (''invalid access mode '' @ accessMode @ '' specified. Only ''
                        @ ReadWriteOnce @ '' is supported''))
      else accessModes_loop accessModes)"

text \<open>
  The local \<^verbatim>\<open>prefix\<close> of \<open>Provision\<close> (lines 134 to 137): the trimmed configured prefix,
  with the separator appended when it is non-empty and does not end in it. The code
  never reads it afterwards.
\<close>

definition prefix :: "environ \<Rightarrow> string" where
  "prefix env =
     (let prefix = TrimSpace (Getenv env volumePrefixEnvVarName)
      in if prefix \<noteq> [] \<and> \<not> HasSuffix prefix ''-'' then prefix @ ''-'' else prefix)"

text \<open>Lines 148 to 155: the region override, else the metadata service.\<close>

definition resolveRegion :: "blockProvisioner \<Rightarrow> environ \<Rightarrow> error + string" where
  "resolveRegion block env =
     (case LookupEnv env ''OCI_SHORT_REGION'' of
        Some region \<Rightarrow> Inr region
      | None \<Rightarrow>
          (case metadata_Get block of
             (_, Some err) \<Rightarrow> Inl err
           | (None, None) \<Rightarrow> Inl Panic
           | (Some metadata, None) \<Rightarrow> Inr (Region metadata)))"

text \<open>
  \<open>Provision\<close> returns the create-volume requests it has sent to the cloud client (none
  or one) together with its Go result: an error, or the volume descriptor. Logging is
  not modelled, except that the log line of line 110 dereferences the name of the
  availability domain and so panics when that name is nil.
\<close>

definition Provision ::
  "plugin \<Rightarrow> blockProvisioner \<Rightarrow> environ \<Rightarrow> VolumeOptions \<Rightarrow> AvailabilityDomain
     \<Rightarrow> CreateVolumeRequest list \<times> (error + PersistentVolume)" where
  "Provision plg block env options ad =
     (case accessModes_loop (pvc_AccessModes (PVC options)) of
        Some err \<Rightarrow> ([], Inl err)
      | None \<Rightarrow>
     (case pvc_Requests (PVC options) ResourceStorage of
        None \<Rightarrow> ([], Inl (Error ''could not determine volume size for PVC''))
      | Some capacity0 \<Rightarrow>
     (case roundUpSize (Value capacity0) (1024 * 1024) of
        Inl err \<Rightarrow> ([], Inl err)
      | Inr volSizeMB0 \<Rightarrow>
     (case (if volumeRoundingEnabled block \<and> Cmp (minVolumeSize block) capacity0 = 1
            then (case roundUpSize (Value (minVolumeSize block)) (1024 * 1024) of
                    Inl err \<Rightarrow> Inl err
                  | Inr volSizeMB \<Rightarrow> Inr (volSizeMB, minVolumeSize block))
            else Inr (volSizeMB0, capacity0)) of
        Inl err \<Rightarrow> ([], Inl err)
      | Inr (volSizeMB, capacity) \<Rightarrow>
     (case ad_Name ad of
        None \<Rightarrow> ([], Inl Panic)
      | Some adName \<Rightarrow>
     (let volumeDetails =
            \<lparr>AvailabilityDomain = ad_Name ad,
             CompartmentId = CompartmentOCID (client block),
             DisplayName = Getenv env volumePrefixEnvVarName @ pvc_Name (PVC options),
             SizeInMBs = volSizeMB,
             DefinedTags = [],
             FreeformTags = [],
             SourceDetails = None\<rparr>
      in
     (case getTags env (pvc_Annotations (PVC options)) of
        Inl err \<Rightarrow> ([], Inl err)
      | Inr (definedTags, freeformTags) \<Rightarrow>
     (let volumeDetails = volumeDetails\<lparr>DefinedTags := definedTags, FreeformTags := freeformTags\<rparr>;
          volumeDetails =
            (case pvc_Annotations (PVC options) ociVolumeBackupID of
               Some v \<Rightarrow> volumeDetails\<lparr>SourceDetails := Some v\<rparr>
             | None \<Rightarrow> volumeDetails);
          prefix = prefix env;
          request = \<lparr>CreateVolumeDetails = volumeDetails\<rparr>
      in
     (case CreateVolume (client block) request of
        (_, Some err) \<Rightarrow> ([request], Inl err)
      | (newVolume, None) \<Rightarrow>
     (let filesystemType = resolveFSType options
      in
     (case resolveRegion block env of
        Inl err \<Rightarrow> ([request], Inl err)
      | Inr region \<Rightarrow>
     (case Id newVolume of
        None \<Rightarrow> ([request], Inl Panic)
      | Some newVolumeId \<Rightarrow>
          ([request],
           Inr \<lparr>pv_Name = newVolumeId,
                pv_Annotations = [ociVolumeID \<mapsto> newVolumeId],
                pv_Labels = [LabelZoneRegion plg \<mapsto> region,
                             LabelZoneFailureDomain plg \<mapsto> adName],
                pv_ReclaimPolicy = PersistentVolumeReclaimPolicy options,
                pv_AccessModes = pvc_AccessModes (PVC options),
                pv_Capacity = [ResourceStorage \<mapsto> capacity],
                pv_Driver = OCIProvisionerName plg,
                pv_FSType = filesystemType\<rparr>)))))))))))))"

subsection \<open>Delete\<close>

text \<open>
  \<open>Delete\<close> returns the delete-volume requests it has sent (none or one) and its Go
  result, \<open>None\<close> for \<^verbatim>\<open>nil\<close>.
\<close>

definition Delete ::
  "blockProvisioner \<Rightarrow> PersistentVolume \<Rightarrow> DeleteVolumeRequest list \<times> error option" where
  "Delete block volume =
     (case pv_Annotations volume ociVolumeID of
        None \<Rightarrow> ([], Some (Error ''volumeid annotation not found on PV''))
      | Some volID \<Rightarrow>
          (let request = \<lparr>VolumeId = volID\<rparr>;
               (response, err) = DeleteVolume (client block) request
           in if (case RawResponse response of
                    None \<Rightarrow> False
                  | Some raw \<Rightarrow> StatusCode raw = StatusNotFound)
              then ([request], None)
              else ([request], err)))"

section \<open>Notions used to state the properties\<close>

text \<open>
  A piece of a tag specification is read as \<open>key=value\<close>: the key is what precedes the
  first \<^verbatim>\<open>=\<close>, the value what follows it; a key \<open>namespace.name\<close> is cut at its first
  \<^verbatim>\<open>.\<close>. A piece is well formed when it has exactly one \<^verbatim>\<open>=\<close> and its key at most
  one \<^verbatim>\<open>.\<close>.
\<close>

definition tagKey :: "string \<Rightarrow> string" where
  "tagKey tag = takeWhile (\<lambda>c. c \<noteq> CHR ''='') tag"

definition tagValue :: "string \<Rightarrow> string" where
  "tagValue tag = tl (dropWhile (\<lambda>c. c \<noteq> CHR ''='') tag)"

definition tagNamespace :: "string \<Rightarrow> string" where
  "tagNamespace tag = takeWhile (\<lambda>c. c \<noteq> CHR ''.'') (tagKey tag)"

definition tagName :: "string \<Rightarrow> string" where
  "tagName tag = tl (dropWhile (\<lambda>c. c \<noteq> CHR ''.'') (tagKey tag))"

definition wellFormed :: "string \<Rightarrow> bool" where
  "wellFormed tag =
     (count_list tag CHR ''='' = 1 \<and> count_list (tagKey tag) CHR ''.'' \<le> 1)"

text \<open>The free-form and the defined tags that a list of pieces declares, in order.\<close>

definition freeformEntries :: "string list \<Rightarrow> (string \<times> string) list" where
  "freeformEntries tags =
     map (\<lambda>tag. (tagKey tag, tagValue tag))
       (filter (\<lambda>tag. count_list (tagKey tag) CHR ''.'' = 0) tags)"

definition definedEntries :: "string list \<Rightarrow> ((string \<times> string) \<times> string) list" where
  "definedEntries tags =
     map (\<lambda>tag. ((tagNamespace tag, tagName tag), tagValue tag))
       (filter (\<lambda>tag. count_list (tagKey tag) CHR ''.'' = 1) tags)"

text \<open>The value of a defined tag, looked up by namespace and key.\<close>

definition lookupDefined :: "definedTags \<Rightarrow> string \<times> string \<rightharpoonup> string" where
  "lookupDefined defined =
     (\<lambda>(namespace, key). case map_of defined namespace of
                            None \<Rightarrow> None
                          | Some tags \<Rightarrow> map_of tags key)"

text \<open>
  A byte that \<^verbatim>\<open>%q\<close> writes as it is: printable ASCII other than the double quote and
  the backslash. \<open>Contains\<close> is \<^verbatim>\<open>strings.Contains\<close>: the second string occurs in the
  first.
\<close>

definition plainByte :: "char \<Rightarrow> bool" where
  "plainByte c =
     ((0x20 :: nat) \<le> of_char c \<and> of_char c < (0x7F :: nat) \<and> c \<noteq> CHR 0x22 \<and> c \<noteq> CHR 0x5C)"

definition Contains :: "string \<Rightarrow> string \<Rightarrow> bool" where
  "Contains s substr =
     list_ex (\<lambda>i. take (length substr) (drop i s) = substr) [0..<Suc (length s)]"

text \<open>What one well-formed defined tag does to the defined map in \<open>parseTags\<close>.\<close>

definition putDefined :: "string \<Rightarrow> string \<Rightarrow> string \<Rightarrow> definedTags \<Rightarrow> definedTags" where
  "putDefined namespace key value defined =
     (case map_of defined namespace of
        Some namespaceTags \<Rightarrow>
          AList.update namespace (AList.update key value namespaceTags) defined
      | None \<Rightarrow>
          AList.update namespace (AList.update key value [])
            (AList.update namespace [] defined))"

text \<open>What one namespace of the annotation tags does to the defaults in \<open>getTags\<close>.\<close>

definition mergeOne :: "string \<Rightarrow> (string \<times> string) list \<Rightarrow> definedTags \<Rightarrow> definedTags" where
  "mergeOne namespace tags defaults =
     (let defaults1 = (case map_of defaults namespace of
                         None \<Rightarrow> AList.update namespace [] defaults
                       | Some _ \<Rightarrow> defaults);
          target = (case map_of defaults1 namespace of None \<Rightarrow> [] | Some t \<Rightarrow> t)
      in AList.update namespace (mergeNamespace tags target) defaults1)"

text \<open>An association list stands for a Go map when no key occurs twice.\<close>

definition distinctDefined :: "definedTags \<Rightarrow> bool" where
  "distinctDefined defined =
     (distinct (map fst defined) \<and>
      list_all (\<lambda>(namespace, tags). distinct (map fst tags)) defined)"

subsection \<open>Concrete collaborators and requests\<close>

definition examplePlugin :: plugin where
  "examplePlugin =
     \<lparr>LabelZoneRegion = ''failure-domain.beta.kubernetes.io/region'',
      LabelZoneFailureDomain = ''failure-domain.beta.kubernetes.io/zone'',
      OCIProvisionerName = ''oracle.com/oci''\<rparr>"

text \<open>
  A client whose create-volume call succeeds and whose delete-volume call fails with
  the given HTTP status.
\<close>

definition exampleClient :: "int \<Rightarrow> ProvisionerClient" where
  "exampleClient status =
     \<lparr>CompartmentOCID = ''ocid1.compartment.oc1..example'',
      CreateVolume = (\<lambda>request. (\<lparr>Id = Some ''ocid1.volume.oc1.phx.example''\<rparr>, None)),
      DeleteVolume = (\<lambda>request. (\<lparr>RawResponse = Some \<lparr>StatusCode = status\<rparr>\<rparr>,
                                   Some (ExternalError ''Service error'')))\<rparr>"

text \<open>A provisioner with a floor of 50 GiB.\<close>

definition exampleBlock :: "bool \<Rightarrow> int \<Rightarrow> blockProvisioner" where
  "exampleBlock rounding status =
     \<lparr>client = exampleClient status,
      metadata_Get = (Some \<lparr>Region = ''phx''\<rparr>, None),
      volumeRoundingEnabled = rounding,
      minVolumeSize = Quantity 53687091200 53687091200\<rparr>"

definition exampleOptions ::
  "string list \<Rightarrow> (string \<rightharpoonup> Quantity) \<Rightarrow> (string \<rightharpoonup> string) \<Rightarrow> VolumeOptions" where
  "exampleOptions accessModes requests annotations =
     \<lparr>PersistentVolumeReclaimPolicy = ''Delete'',
      PVC = \<lparr>pvc_Name = ''pvc'', pvc_Annotations = annotations,
             pvc_AccessModes = accessModes, pvc_Requests = requests\<rparr>,
      Parameters = Map.empty\<rparr>"

text \<open>A rendering of the code points beyond ASCII, for inputs that have none.\<close>

definition noOther :: "string \<Rightarrow> string \<times> nat" where
  "noOther s = ([], 1)"

definition exampleAD :: AvailabilityDomain where
  "exampleAD = \<lparr>ad_Name = Some ''AD-1''\<rparr>"

definition exampleVolume :: "(string \<rightharpoonup> string) \<Rightarrow> PersistentVolume" where
  "exampleVolume annotations =
     \<lparr>pv_Name = ''ocid1.volume.oc1.phx.example'',
      pv_Annotations = annotations,
      pv_Labels = Map.empty,
      pv_ReclaimPolicy = ''Delete'',
      pv_AccessModes = [ReadWriteOnce],
      pv_Capacity = [ResourceStorage \<mapsto> Quantity 53687091200 53687091200],
      pv_Driver = ''oracle.com/oci'',
      pv_FSType = ''ext4''\<rparr>"

section \<open>Auxiliary lemmas\<close>

lemma Split_not_Nil: "Split s c \<noteq> []"
  by (induction s) (auto split: list.splits)

lemma length_Split: "length (Split s c) = Suc (count_list s c)"
  by (induction s) (auto simp: Split_not_Nil split: list.splits)

lemma Split_no_sep: "c \<notin> set s \<Longrightarrow> Split s c = [s]"
  by (induction s) auto

lemma Split_one_sep:
  "count_list s c = 1 \<Longrightarrow>
   Split s c = [takeWhile (\<lambda>x. x \<noteq> c) s, tl (dropWhile (\<lambda>x. x \<noteq> c) s)]"
proof (induction s)
  case Nil
  then show ?case by simp
next
  case (Cons x s)
  show ?case
  proof (cases "x = c")
    case True
    with Cons.prems have "count_list s c = 0" by simp
    then have "c \<notin> set s" by (simp add: count_list_0_iff)
    with True show ?thesis by (simp add: Split_no_sep)
  next
    case False
    with Cons show ?thesis by simp
  qed
qed

lemma hd_Split: "hd (Split s c) = takeWhile (\<lambda>x. x \<noteq> c) s"
  by (induction s) (auto simp: Split_not_Nil split: list.splits)

lemma step_bad_eq:
  "count_list tag CHR ''='' \<noteq> 1 \<Longrightarrow>
   parseTags_loop (tag # tags) (d, f) = Inl (tagFormatError tag)"
  by (simp add: length_Split)

lemma step_bad_dot:
  assumes "count_list tag CHR ''='' = 1" "count_list (tagKey tag) CHR ''.'' > 1"
  shows "parseTags_loop (tag # tags) (d, f) = Inl (tagFormatError tag)"
  using assms by (simp add: Split_one_sep length_Split tagKey_def)

lemma step_not_wellFormed:
  "\<not> wellFormed tag \<Longrightarrow> parseTags_loop (tag # tags) (d, f) = Inl (tagFormatError tag)"
proof (cases "count_list tag CHR ''='' = 1")
  case True
  assume "\<not> wellFormed tag"
  with True have "count_list (tagKey tag) CHR ''.'' > 1" by (simp add: wellFormed_def)
  with True show ?thesis by (rule step_bad_dot)
next
  case False
  then show ?thesis by (rule step_bad_eq)
qed

lemma step_freeform:
  assumes "count_list tag CHR ''='' = 1" "count_list (tagKey tag) CHR ''.'' = 0"
  shows "parseTags_loop (tag # tags) (d, f) =
         parseTags_loop tags (d, AList.update (tagKey tag) (tagValue tag) f)"
  using assms by (simp add: Split_one_sep length_Split tagKey_def tagValue_def)

lemma step_defined:
  assumes "count_list tag CHR ''='' = 1" "count_list (tagKey tag) CHR ''.'' = 1"
  shows "parseTags_loop (tag # tags) (d, f) =
         parseTags_loop tags (putDefined (tagNamespace tag) (tagName tag) (tagValue tag) d, f)"
  using assms
  by (simp add: Split_one_sep length_Split tagKey_def tagValue_def tagNamespace_def
      tagName_def putDefined_def Let_def split: option.splits)

lemma lookupDefined_putDefined:
  "lookupDefined (putDefined ns k v d) = (lookupDefined d)((ns, k) \<mapsto> v)"
  by (auto simp: lookupDefined_def putDefined_def update_conv' fun_eq_iff split: option.splits)

lemma dom_putDefined: "fst ` set (putDefined ns k v d) = insert ns (fst ` set d)"
  by (auto simp: putDefined_def dom_update split: option.splits)

lemma freeformEntries_Cons:
  "freeformEntries (tag # tags) =
     (if count_list (tagKey tag) CHR ''.'' = 0
      then (tagKey tag, tagValue tag) # freeformEntries tags else freeformEntries tags)"
  by (simp add: freeformEntries_def)

lemma definedEntries_Cons:
  "definedEntries (tag # tags) =
     (if count_list (tagKey tag) CHR ''.'' = 1
      then ((tagNamespace tag, tagName tag), tagValue tag) # definedEntries tags
      else definedEntries tags)"
  by (simp add: definedEntries_def)

lemma map_add_rev_Cons: "m(k \<mapsto> v) ++ map_of (rev es) = m ++ map_of (rev ((k, v) # es))"
  by (simp add: map_of_append fun_eq_iff map_add_def split: option.splits)

lemma loop_wellFormed:
  "list_all wellFormed tags \<Longrightarrow>
   \<exists>d' f'. parseTags_loop tags (d, f) = Inr (d', f') \<and>
     map_of f' = map_of f ++ map_of (rev (freeformEntries tags)) \<and>
     lookupDefined d' = lookupDefined d ++ map_of (rev (definedEntries tags)) \<and>
     fst ` set d' = fst ` set d \<union> (fst \<circ> fst) ` set (definedEntries tags)"
proof (induction tags arbitrary: d f)
  case Nil
  then show ?case by (simp add: freeformEntries_def definedEntries_def)
next
  case (Cons tag tags)
  then have wf: "wellFormed tag" and rest: "list_all wellFormed tags"
    by simp_all
  from wf have eq: "count_list tag CHR ''='' = 1"
    and dots: "count_list (tagKey tag) CHR ''.'' \<le> 1"
    by (simp_all add: wellFormed_def)
  show ?case
  proof (cases "count_list (tagKey tag) CHR ''.'' = 0")
    case True
    from Cons.IH [OF rest, of d "AList.update (tagKey tag) (tagValue tag) f"]
    show ?thesis
      unfolding step_freeform [OF eq True] freeformEntries_Cons definedEntries_Cons
      using True by (simp only: update_conv' map_add_rev_Cons if_True) simp
  next
    case False
    with dots have one: "count_list (tagKey tag) CHR ''.'' = 1" by simp
    from Cons.IH [OF rest, of "putDefined (tagNamespace tag) (tagName tag) (tagValue tag) d" f]
    show ?thesis
      unfolding step_defined [OF eq one] freeformEntries_Cons definedEntries_Cons
      using one
      by (simp only: lookupDefined_putDefined dom_putDefined map_add_rev_Cons if_True) auto
  qed
qed

lemma loop_first_bad:
  "list_all wellFormed ps \<Longrightarrow> \<not> wellFormed p \<Longrightarrow>
   parseTags_loop (ps @ p # qs) (d, f) = Inl (tagFormatError p)"
proof (induction ps arbitrary: d f)
  case Nil
  then show ?case by (simp add: step_not_wellFormed del: parseTags_loop.simps)
next
  case (Cons tag ps)
  then have wf: "wellFormed tag" and rest: "list_all wellFormed ps"
    by simp_all
  from wf have eq: "count_list tag CHR ''='' = 1"
    and dots: "count_list (tagKey tag) CHR ''.'' \<le> 1"
    by (simp_all add: wellFormed_def)
  show ?case
  proof (cases "count_list (tagKey tag) CHR ''.'' = 0")
    case True
    show ?thesis
      unfolding append_Cons step_freeform [OF eq True]
      by (rule Cons.IH [OF rest Cons.prems(2)])
  next
    case False
    with dots have one: "count_list (tagKey tag) CHR ''.'' = 1" by simp
    show ?thesis
      unfolding append_Cons step_defined [OF eq one]
      by (rule Cons.IH [OF rest Cons.prems(2)])
  qed
qed

lemma first_bad_split:
  "\<not> list_all P xs \<Longrightarrow> \<exists>ps p qs. xs = ps @ p # qs \<and> list_all P ps \<and> \<not> P p"
proof -
  assume "\<not> list_all P xs"
  then have "\<exists>x\<in>set xs. \<not> P x" by (simp add: list_all_iff)
  then obtain ps p qs where "xs = ps @ p # qs" "\<not> P p" "\<forall>y\<in>set ps. \<not> \<not> P y"
    by (auto dest!: split_list_first_prop)
  then show ?thesis by (auto simp: list_all_iff)
qed

lemma set_update_subset: "set (AList.update k v al) \<subseteq> insert (k, v) (set al)"
  by (induction al) auto

lemma distinctDefined_update:
  "distinctDefined d \<Longrightarrow> distinct (map fst t) \<Longrightarrow> distinctDefined (AList.update ns t d)"
  using set_update_subset [of ns t d]
  by (auto simp: distinctDefined_def distinct_update list_all_iff)

lemma distinctDefined_lookup:
  "distinctDefined d \<Longrightarrow> map_of d ns = Some t \<Longrightarrow> distinct (map fst t)"
  by (auto simp: distinctDefined_def list_all_iff dest!: map_of_SomeD)

lemma distinctDefined_putDefined:
  "distinctDefined d \<Longrightarrow> distinctDefined (putDefined ns k v d)"
  by (auto simp: putDefined_def distinct_update
      intro!: distinctDefined_update dest: distinctDefined_lookup split: option.splits)

lemma loop_distinct:
  "parseTags_loop tags (d, f) = Inr (d', f') \<Longrightarrow> distinctDefined d \<Longrightarrow> distinct (map fst f)
   \<Longrightarrow> distinctDefined d' \<and> distinct (map fst f')"
proof (induction tags arbitrary: d f)
  case Nil
  then show ?case by simp
next
  case (Cons tag tags)
  show ?case
  proof (cases "wellFormed tag")
    case False
    from step_not_wellFormed [OF False, of tags d f] Cons.prems(1) show ?thesis
      by (simp del: parseTags_loop.simps)
  next
    case True
    then have eq: "count_list tag CHR ''='' = 1"
      and dots: "count_list (tagKey tag) CHR ''.'' \<le> 1"
      by (simp_all add: wellFormed_def)
    show ?thesis
    proof (cases "count_list (tagKey tag) CHR ''.'' = 0")
      case True
      from Cons.prems(1) have
        "parseTags_loop tags (d, AList.update (tagKey tag) (tagValue tag) f) = Inr (d', f')"
        by (simp only: step_freeform [OF eq True])
      then show ?thesis
        by (rule Cons.IH) (simp_all add: Cons.prems distinct_update)
    next
      case False
      with dots have one: "count_list (tagKey tag) CHR ''.'' = 1" by simp
      from Cons.prems(1) have
        "parseTags_loop tags (putDefined (tagNamespace tag) (tagName tag) (tagValue tag) d, f)
           = Inr (d', f')"
        by (simp only: step_defined [OF eq one])
      then show ?thesis
        by (rule Cons.IH) (simp_all add: Cons.prems distinctDefined_putDefined)
    qed
  qed
qed

lemma parseTags_distinct:
  "parseTags tagStr = Inr (d, f) \<Longrightarrow> distinctDefined d \<and> distinct (map fst f)"
proof (cases "tagStr = []")
  case True
  assume "parseTags tagStr = Inr (d, f)"
  with True show ?thesis by (auto simp: parseTags_def distinctDefined_def)
next
  case False
  assume "parseTags tagStr = Inr (d, f)"
  with False have "parseTags_loop (Split tagStr CHR '','') ([], []) = Inr (d, f)"
    by (simp add: parseTags_def)
  then show ?thesis by (rule loop_distinct) (simp_all add: distinctDefined_def)
qed

lemma map_of_mergeFreeform:
  "distinct (map fst freeformTags) \<Longrightarrow>
   map_of (mergeFreeform freeformTags defaults) = map_of defaults ++ map_of freeformTags"
proof (induction freeformTags arbitrary: defaults)
  case Nil
  then show ?case by simp
next
  case (Cons kv rest)
  obtain k v where kv: "kv = (k, v)" by (cases kv)
  from Cons.prems kv have k: "k \<notin> dom (map_of rest)" and d: "distinct (map fst rest)"
    by (auto simp: dom_map_of_conv_image_fst)
  have "map_of (mergeFreeform (kv # rest) defaults) = map_of (AList.update k v defaults) ++ map_of rest"
    using Cons.IH [OF d, of "AList.update k v defaults"] kv by simp
  also have "\<dots> = (map_of defaults)(k \<mapsto> v) ++ map_of rest"
    by (simp only: update_conv')
  also have "\<dots> = (map_of defaults ++ map_of rest)(k \<mapsto> v)"
    using k by (rule map_add_upd_left)
  finally show ?case using kv by (simp only: map_of.simps fst_conv snd_conv map_add_upd)
qed

lemma map_of_mergeNamespace:
  "distinct (map fst tags) \<Longrightarrow>
   map_of (mergeNamespace tags target) = map_of target ++ map_of tags"
proof (induction tags arbitrary: target)
  case Nil
  then show ?case by simp
next
  case (Cons kv rest)
  obtain k v where kv: "kv = (k, v)" by (cases kv)
  from Cons.prems kv have k: "k \<notin> dom (map_of rest)" and d: "distinct (map fst rest)"
    by (auto simp: dom_map_of_conv_image_fst)
  have "map_of (mergeNamespace (kv # rest) target) = map_of (AList.update k v target) ++ map_of rest"
    using Cons.IH [OF d, of "AList.update k v target"] kv by simp
  also have "\<dots> = (map_of target)(k \<mapsto> v) ++ map_of rest"
    by (simp only: update_conv')
  also have "\<dots> = (map_of target ++ map_of rest)(k \<mapsto> v)"
    using k by (rule map_add_upd_left)
  finally show ?case using kv by (simp only: map_of.simps fst_conv snd_conv map_add_upd)
qed

lemma mergeDefined_Cons:
  "mergeDefined ((namespace, tags) # rest) defaults =
     mergeDefined rest (mergeOne namespace tags defaults)"
  by (simp add: mergeOne_def Let_def)

lemma lookupDefined_mergeOne:
  "distinct (map fst tags) \<Longrightarrow>
   lookupDefined (mergeOne ns tags defaults) (n, k) =
     (if n = ns then (case map_of tags k of Some v \<Rightarrow> Some v | None \<Rightarrow> lookupDefined defaults (ns, k))
      else lookupDefined defaults (n, k))"
  by (auto simp: lookupDefined_def mergeOne_def Let_def update_conv' map_of_mergeNamespace
      map_add_def split: option.splits)

lemma dom_mergeOne: "fst ` set (mergeOne ns tags defaults) = insert ns (fst ` set defaults)"
  by (auto simp: mergeOne_def Let_def dom_update split: option.splits)

lemma lookupDefined_Cons:
  "lookupDefined ((ns, tags) # rest) (n, k) =
     (if n = ns then map_of tags k else lookupDefined rest (n, k))"
  by (simp add: lookupDefined_def)

lemma lookupDefined_absent: "ns \<notin> fst ` set d \<Longrightarrow> lookupDefined d (ns, k) = None"
proof -
  assume "ns \<notin> fst ` set d"
  then have "map_of d ns = None" by (simp add: map_of_eq_None_iff)
  then show ?thesis by (simp add: lookupDefined_def)
qed

lemma lookupDefined_mergeDefined:
  "distinctDefined definedTags \<Longrightarrow>
   lookupDefined (mergeDefined definedTags defaults) =
     lookupDefined defaults ++ lookupDefined definedTags \<and>
   fst ` set (mergeDefined definedTags defaults) = fst ` set defaults \<union> fst ` set definedTags"
proof (induction definedTags arbitrary: defaults)
  case Nil
  have "lookupDefined [] = Map.empty" by (simp add: lookupDefined_def fun_eq_iff)
  then show ?case by simp
next
  case (Cons e rest)
  obtain ns tags where e: "e = (ns, tags)" by (cases e)
  from Cons.prems e have fresh: "ns \<notin> fst ` set rest" and dt: "distinct (map fst tags)"
    and dr: "distinctDefined rest"
    by (auto simp: distinctDefined_def)
  note IH = Cons.IH [OF dr, of "mergeOne ns tags defaults"]
  have "lookupDefined (mergeDefined (e # rest) defaults) x =
        (lookupDefined defaults ++ lookupDefined (e # rest)) x" for x
  proof -
    obtain n k where x: "x = (n, k)" by (cases x)
    show ?thesis
      using IH fresh
      by (auto simp: e x mergeDefined_Cons lookupDefined_mergeOne [OF dt] lookupDefined_Cons
          lookupDefined_absent map_add_def simp del: mergeDefined.simps split: option.splits)
  qed
  moreover have "fst ` set (mergeDefined (e # rest) defaults) =
                 fst ` set defaults \<union> fst ` set (e # rest)"
    using IH by (auto simp: e mergeDefined_Cons dom_mergeOne simp del: mergeDefined.simps)
  ultimately show ?case by (simp add: fun_eq_iff)
qed

lemma parseTags_wellFormed:
  assumes "tagStr \<noteq> []" "list_all wellFormed (Split tagStr CHR '','')"
  shows "\<exists>d f. parseTags tagStr = Inr (d, f) \<and>
           map_of f = map_of (rev (freeformEntries (Split tagStr CHR '',''))) \<and>
           lookupDefined d = map_of (rev (definedEntries (Split tagStr CHR '',''))) \<and>
           fst ` set d = (fst \<circ> fst) ` set (definedEntries (Split tagStr CHR '',''))"
proof -
  have "lookupDefined [] = Map.empty" by (simp add: lookupDefined_def fun_eq_iff)
  with loop_wellFormed [OF assms(2), of "[]" "[]"] assms(1) show ?thesis
    by (simp add: parseTags_def)
qed

lemma parseTags_not_wellFormed:
  assumes "tagStr \<noteq> []" "\<not> list_all wellFormed (Split tagStr CHR '','')"
  shows "\<exists>ps p qs. Split tagStr CHR '','' = ps @ p # qs \<and> list_all wellFormed ps \<and>
           \<not> wellFormed p \<and> parseTags tagStr = Inl (tagFormatError p)"
proof -
  from first_bad_split [OF assms(2)] obtain ps p qs where
    s: "Split tagStr CHR '','' = ps @ p # qs" and ok: "list_all wellFormed ps"
    and bad: "\<not> wellFormed p" by blast
  from loop_first_bad [OF ok bad, of qs "[]" "[]"] s assms(1)
  have "parseTags tagStr = Inl (tagFormatError p)" by (simp add: parseTags_def)
  with s ok bad show ?thesis by blast
qed

lemma Split_append_sep: "c \<notin> set k \<Longrightarrow> Split (k @ c # s) c = k # Split s c"
  by (induction k) auto

lemma accessModes_loop_None:
  "accessModes_loop accessModes = None \<longleftrightarrow> (\<forall>accessMode\<in>set accessModes. accessMode = ReadWriteOnce)"
  by (induction accessModes) auto

lemma accessModes_loop_Some:
  "accessModes_loop accessModes = Some err \<Longrightarrow>
   \<exists>accessMode\<in>set accessModes. accessMode \<noteq> ReadWriteOnce \<and>
     err = Error (''invalid access mode '' @ accessMode @ '' specified. Only ''
                  @ ReadWriteOnce @ '' is supported'')"
  by (induction accessModes) (auto split: if_splits)

lemma roundUpSize_MiB: "\<exists>size. roundUpSize bytes (1024 * 1024) = Inr size"
  by (simp add: roundUpSize_def div_int64_def)

lemma Cmp_greater: "Cmp q y = 1 \<longleftrightarrow> amount y < amount q"
  by (auto simp: Cmp_def)

lemmas example_defs = examplePlugin_def exampleClient_def exampleBlock_def exampleOptions_def
  exampleAD_def

lemmas const_defs = ociVolumeID_def ociVolumeBackupID_def ociTagAnnotation_def
  defaultTagsEnvVar_def volumePrefixEnvVarName_def fsType_def ReadWriteOnce_def
  ResourceStorage_def StatusNotFound_def

lemma sint_sum:
  assumes "0 < sint b" "0 < sint u" "sint b + sint u - 1 < 2 ^ 63"
  shows "sint (b + u - 1 :: int64) = sint b + sint u - 1"
proof -
  have "b + u - 1 = (word_of_int (sint b + sint u - 1) :: int64)"
    by simp
  then have "sint (b + u - 1 :: int64) = signed_take_bit 63 (sint b + sint u - 1)"
    by (simp only: sint_sbintrunc') simp
  also have "\<dots> = sint b + sint u - 1"
    using assms by (intro signed_take_bit_int_eq_self) auto
  finally show ?thesis .
qed

lemma sdiv_nonneg_pos: "0 \<le> (k::int) \<Longrightarrow> 0 < l \<Longrightarrow> k sdiv l = k div l"
  by (cases "k = 0") (simp_all add: signed_divide_int_def)

lemma div_le_dividend: "0 \<le> (n::int) \<Longrightarrow> 0 < u \<Longrightarrow> n div u \<le> n"
  by (metis div_0 int_div_le_self linorder_not_le nle_le)

lemma ceil_div_aux:
  assumes u: "0 < (u::int)"
  shows "(b + u - 1) div u = - ((- b) div u)"
proof (cases "b mod u = 0")
  case True
  have "b + u - 1 = u * (b div u) + (u - 1)"
    using True by (simp add: algebra_simps) (metis True add.right_neutral mult_div_mod_eq)
  then have "(b + u - 1) div u = b div u"
    using u by (intro int_div_pos_eq[where r = "u - 1"]) auto
  moreover have "(- b) div u = - (b div u)"
    using u True by (simp add: zdiv_zminus1_eq_if)
  ultimately show ?thesis by simp
next
  case False
  have "0 \<le> b mod u" "b mod u < u" using u by simp_all
  with False have r: "0 < b mod u" "b mod u < u" by simp_all
  have "b + u - 1 = u * (b div u + 1) + (b mod u - 1)"
    by (simp add: algebra_simps)
  then have "(b + u - 1) div u = b div u + 1"
    using u r by (intro int_div_pos_eq[where r = "b mod u - 1"]) auto
  moreover have "(- b) div u = - (b div u) - 1"
    using u False by (simp add: zdiv_zminus1_eq_if)
  ultimately show ?thesis by simp
qed

lemma ceil_div:
  "0 < (u::int) \<Longrightarrow> (b + u - 1) div u = \<lceil>real_of_int b / real_of_int u\<rceil>"
  by (simp add: ceil_div_aux ceiling_divide_eq_div)

lemma roundUpSize_no_overflow:
  assumes "0 < sint b" "0 < sint u" "sint b + sint u - 1 < 2 ^ 63"
  shows "\<exists>r. roundUpSize b u = Inr r \<and> sint r = (sint b + sint u - 1) div sint u"
proof -
  let ?n = "sint b + sint u - 1"
  let ?q = "?n div sint u"
  have n0: "0 \<le> ?n" using assms by simp
  have q0: "0 \<le> ?q" using assms n0 by (simp add: pos_imp_zdiv_nonneg_iff)
  have qle: "?q \<le> ?n"
    using n0 assms(2) by (rule div_le_dividend)
  have u0: "u \<noteq> 0" using assms(2) by auto
  have "sint (word_of_int ?q :: int64) = signed_take_bit 63 ?q"
    by (simp add: sint_sbintrunc')
  also have "\<dots> = ?q" using q0 qle assms(3)
    by (intro signed_take_bit_int_eq_self) auto
  finally show ?thesis
    using u0 n0 assms by (simp add: roundUpSize_def div_int64_def sint_sum sdiv_nonneg_pos)
qed

lemma sint_eq_numeral: "sint (r :: int64) = sint (k :: int64) \<Longrightarrow> r = k"
  by (rule signed_word_eqI)

lemmas eval_defs = Provision_def getTags_def parseTags_def Getenv_def LookupEnv_def index_map_def
  roundUpSize_def div_int64_def signed_divide_int_def Cmp_def resolveRegion_def
  resolveFSType_def tagFormatError_def Let_def

lemma Quote_loop_plain: "list_all plainByte s \<Longrightarrow> Quote_loop other s = s"
  by (induction s) (auto simp: plainByte_def)

lemma Quote_plain: "list_all plainByte s \<Longrightarrow> Quote other s = CHR 0x22 # s @ [CHR 0x22]"
  by (simp add: Quote_def Quote_loop_plain)

lemma Contains_middle: "Contains (xs @ p @ ys) p"
proof -
  have "take (length p) (drop (length xs) (xs @ p @ ys)) = p" by simp
  moreover have "length xs < Suc (length (xs @ p @ ys))" by simp
  ultimately show ?thesis
    unfolding Contains_def list_ex_iff by (metis atLeastLessThan_iff set_upt zero_le)
qed

lemma tagFormatError_message:
  "errorMessage other (tagFormatError tag) =
     Some (''tag format must follow (<namespace>.)<tagkey>=<value>: '' @ Quote other tag)"
  by (simp add: tagFormatError_def)

section \<open>The properties\<close>

text \<open>
  Claim C9, as amended. For a positive byte count \<open>b\<close> and a positive allocation unit
  \<open>u\<close> whose sum \<open>b + u - 1\<close> still fits a signed 64-bit integer, \<open>roundUpSize\<close> returns
  \<open>(b + u - 1) div u\<close>, which is the ceiling of \<open>b / u\<close> and is at least 1. Under the
  same proviso it maps \<open>(u, u)\<close> to 1 and \<open>(u + 1, u)\<close> to 2.
\<close>

theorem roundUpSize_ceiling:
  "(0 < sint b \<and> 0 < sint u \<and> sint b + sint u - 1 < 2 ^ 63 \<longrightarrow>
      (\<exists>r. roundUpSize b u = Inr r \<and>
           sint r = (sint b + sint u - 1) div sint u \<and>
           sint r = \<lceil>real_of_int (sint b) / real_of_int (sint u)\<rceil> \<and>
           0 < sint r)) \<and>
   (0 < sint u \<and> 2 * sint u - 1 < 2 ^ 63 \<longrightarrow> roundUpSize u u = Inr 1) \<and>
   (0 < sint u \<and> 2 * sint u < 2 ^ 63 \<longrightarrow> roundUpSize (u + 1) u = Inr 2)"
proof (intro conjI impI)
  assume a: "0 < sint b \<and> 0 < sint u \<and> sint b + sint u - 1 < 2 ^ 63"
  then obtain r where r: "roundUpSize b u = Inr r"
    "sint r = (sint b + sint u - 1) div sint u"
    using roundUpSize_no_overflow by blast
  have "sint u \<le> sint b + sint u - 1" using a by simp
  then have "sint u div sint u \<le> (sint b + sint u - 1) div sint u"
    using a by (intro zdiv_mono1) auto
  then have "0 < sint r" using a r(2) by simp
  with r a show "\<exists>r. roundUpSize b u = Inr r \<and>
           sint r = (sint b + sint u - 1) div sint u \<and>
           sint r = \<lceil>real_of_int (sint b) / real_of_int (sint u)\<rceil> \<and> 0 < sint r"
    by (simp add: ceil_div)
next
  assume a: "0 < sint u \<and> 2 * sint u - 1 < 2 ^ 63"
  then obtain r where r: "roundUpSize u u = Inr r"
    "sint r = (sint u + sint u - 1) div sint u"
    using roundUpSize_no_overflow [of u u] by auto
  have "(sint u + sint u - 1) div sint u = 1"
    using a by (intro int_div_pos_eq [where r = "sint u - 1"]) auto
  with r(2) have "sint r = sint (1 :: int64)" by simp
  then have "r = 1" by (rule sint_eq_numeral)
  with r(1) show "roundUpSize u u = Inr 1" by simp
next
  assume a: "0 < sint u \<and> 2 * sint u < 2 ^ 63"
  have "sint (u + 1) = signed_take_bit 63 (sint u + 1)"
    by (simp add: sint_word_ariths)
  also have "\<dots> = sint u + 1"
    using a by (intro signed_take_bit_int_eq_self) auto
  finally have s: "sint (u + 1) = sint u + 1" .
  with a obtain r where r: "roundUpSize (u + 1) u = Inr r"
    "sint r = (sint (u + 1) + sint u - 1) div sint u"
    using roundUpSize_no_overflow [of "u + 1" u] by auto
  have "(sint (u + 1) + sint u - 1) div sint u = 2"
    using a s by (intro int_div_pos_eq [where r = 0]) auto
  with r(2) have "sint r = sint (2 :: int64)" by simp
  then have "r = 2" by (rule sint_eq_numeral)
  with r(1) show "roundUpSize (u + 1) u = Inr 2" by simp
qed

theorem roundUpSize_ceiling_witness:
  "roundUpSize 10737418241 1048576 = Inr 10241 \<and>
   \<lceil>real_of_int 10737418241 / real_of_int 1048576\<rceil> = (10241 :: int) \<and>
   roundUpSize 1048576 1048576 = Inr 1 \<and>
   roundUpSize 1048577 1048576 = Inr 2"
  using roundUpSize_ceiling [of 10737418241 1048576]
  by (simp add: roundUpSize_def div_int64_def signed_divide_int_def)

text \<open>
  Claim C9 as stated, for every positive \<open>b\<close> and \<open>u\<close>, fails where the addition
  wraps around: for the largest \<^verbatim>\<open>int64\<close> byte count and the unit of 1 MiB, both
  positive, the result is negative, whereas the ceiling is \<open>2 ^ 43\<close>.
\<close>

theorem roundUpSize_overflow_counterexample:
  "sint (9223372036854775807 :: int64) = 9223372036854775807 \<and>
   sint (1048576 :: int64) = 1048576 \<and>
   roundUpSize 9223372036854775807 1048576 = Inr (- 8796093022207) \<and>
   sint (- 8796093022207 :: int64) = - 8796093022207 \<and>
   \<lceil>real_of_int 9223372036854775807 / real_of_int 1048576\<rceil> = (8796093022208 :: int)"
  by (simp add: roundUpSize_def div_int64_def signed_divide_int_def)

text \<open>
  Claim C1. Let a request pass the preconditions of \<open>Provision\<close> (supported access
  modes, a storage capacity, a named availability domain, tags that resolve). The
  billed quantity is the floor \<open>minVolumeSize\<close> when rounding is enabled and the
  requested capacity is strictly less than the floor, and the requested capacity
  otherwise: so a request equal to the floor is left alone, and so is every request
  when rounding is disabled. Then exactly one create-volume request is sent, its size
  in MB is \<open>roundUpSize\<close>, for the unit of 1 MiB, of what \<^verbatim>\<open>Value()\<close> returns for the
  billed quantity, a descriptor is
  returned whenever the create call succeeds with an identifier and the region
  resolves, and every descriptor returned records the billed quantity as its storage
  capacity.
\<close>

theorem Provision_rounding:
  assumes "\<forall>accessMode\<in>set (pvc_AccessModes (PVC options)). accessMode = ReadWriteOnce"
    and "pvc_Requests (PVC options) ResourceStorage = Some capacity"
    and "ad_Name ad = Some adName"
    and "getTags env (pvc_Annotations (PVC options)) = Inr (definedTags, freeformTags)"
    and "billed = (if volumeRoundingEnabled block \<and> amount capacity < amount (minVolumeSize block)
                   then minVolumeSize block else capacity)"
  shows "\<exists>request. fst (Provision plg block env options ad) = [request] \<and>
           roundUpSize (Value billed) (1024 * 1024) = Inr (SizeInMBs (CreateVolumeDetails request)) \<and>
           (snd (CreateVolume (client block) request) = None \<and>
            Id (fst (CreateVolume (client block) request)) \<noteq> None \<and>
            (\<exists>region. resolveRegion block env = Inr region) \<longrightarrow>
              (\<exists>pv. snd (Provision plg block env options ad) = Inr pv)) \<and>
           (\<forall>pv. snd (Provision plg block env options ad) = Inr pv \<longrightarrow>
              pv_Capacity pv = [ResourceStorage \<mapsto> billed])"
proof -
  obtain size0 where s0: "roundUpSize (Value capacity) (1024 * 1024) = Inr size0"
    using roundUpSize_MiB by blast
  obtain size1 where s1: "roundUpSize (Value (minVolumeSize block)) (1024 * 1024) = Inr size1"
    using roundUpSize_MiB by blast
  have modes: "accessModes_loop (pvc_AccessModes (PVC options)) = None"
    using assms(1) by (simp add: accessModes_loop_None)
  show ?thesis
    using modes assms(2-) s0 s1
    by (auto simp: Provision_def Let_def Cmp_greater split: prod.splits option.splits sum.splits)
qed

theorem Provision_rounding_witness:
  "(\<exists>request pv.
      Provision examplePlugin (exampleBlock True 404) Map.empty
        (exampleOptions [ReadWriteOnce] [ResourceStorage \<mapsto> Quantity 10737418240 10737418240] Map.empty)
        exampleAD = ([request], Inr pv) \<and>
      SizeInMBs (CreateVolumeDetails request) = 51200 \<and>
      pv_Capacity pv ResourceStorage = Some (Quantity 53687091200 53687091200)) \<and>
   (\<exists>request pv.
      Provision examplePlugin (exampleBlock True 404) Map.empty
        (exampleOptions [ReadWriteOnce] [ResourceStorage \<mapsto> Quantity 53687091200 53687091200] Map.empty)
        exampleAD = ([request], Inr pv) \<and>
      SizeInMBs (CreateVolumeDetails request) = 51200 \<and>
      pv_Capacity pv ResourceStorage = Some (Quantity 53687091200 53687091200)) \<and>
   (\<exists>request pv.
      Provision examplePlugin (exampleBlock False 404) Map.empty
        (exampleOptions [ReadWriteOnce] [ResourceStorage \<mapsto> Quantity 10737418240 10737418240] Map.empty)
        exampleAD = ([request], Inr pv) \<and>
      SizeInMBs (CreateVolumeDetails request) = 10240 \<and>
      pv_Capacity pv ResourceStorage = Some (Quantity 10737418240 10737418240)) \<and>
   (\<exists>request pv.
      Provision examplePlugin (exampleBlock False 404) Map.empty
        (exampleOptions [ReadWriteOnce] [ResourceStorage \<mapsto> Quantity 10000000000000000000 0]
           Map.empty)
        exampleAD = ([request], Inr pv) \<and>
      SizeInMBs (CreateVolumeDetails request) = 0 \<and>
      pv_Capacity pv ResourceStorage = Some (Quantity 10000000000000000000 0))"
proof -
  have h1: "\<forall>accessMode\<in>set (pvc_AccessModes (PVC (exampleOptions [ReadWriteOnce] requests Map.empty))).
              accessMode = ReadWriteOnce" for requests
    by (simp add: exampleOptions_def)
  have h2: "pvc_Requests (PVC (exampleOptions [ReadWriteOnce] [ResourceStorage \<mapsto> capacity] Map.empty))
              ResourceStorage = Some capacity" for capacity
    by (simp add: exampleOptions_def)
  have h3: "ad_Name exampleAD = Some ''AD-1''"
    by (simp add: exampleAD_def)
  have h4: "getTags Map.empty (pvc_Annotations (PVC (exampleOptions [ReadWriteOnce] requests Map.empty)))
              = Inr ([], [])" for requests
    by (simp add: exampleOptions_def getTags_def Getenv_def index_map_def parseTags_def)
  have h5: "Quantity 53687091200 53687091200 =
      (if volumeRoundingEnabled (exampleBlock True 404) \<and>
          amount (Quantity 10737418240 10737418240) < amount (minVolumeSize (exampleBlock True 404))
       then minVolumeSize (exampleBlock True 404) else Quantity 10737418240 10737418240)"
    by (simp add: exampleBlock_def)
  have h6: "Quantity 53687091200 53687091200 =
      (if volumeRoundingEnabled (exampleBlock True 404) \<and>
          amount (Quantity 53687091200 53687091200) < amount (minVolumeSize (exampleBlock True 404))
       then minVolumeSize (exampleBlock True 404) else Quantity 53687091200 53687091200)"
    by (simp add: exampleBlock_def)
  have h7: "Quantity 10737418240 10737418240 =
      (if volumeRoundingEnabled (exampleBlock False 404) \<and>
          amount (Quantity 10737418240 10737418240) < amount (minVolumeSize (exampleBlock False 404))
       then minVolumeSize (exampleBlock False 404) else Quantity 10737418240 10737418240)"
    by (simp add: exampleBlock_def)
  have h8: "Quantity 10000000000000000000 0 =
      (if volumeRoundingEnabled (exampleBlock False 404) \<and>
          amount (Quantity 10000000000000000000 0) < amount (minVolumeSize (exampleBlock False 404))
       then minVolumeSize (exampleBlock False 404) else Quantity 10000000000000000000 0)"
    by (simp add: exampleBlock_def)
  show ?thesis
    using Provision_rounding [OF h1 h2 h3 h4 h5, of examplePlugin]
      Provision_rounding [OF h1 h2 h3 h4 h6, of examplePlugin]
      Provision_rounding [OF h1 h2 h3 h4 h7, of examplePlugin]
      Provision_rounding [OF h1 h2 h3 h4 h8, of examplePlugin]
    by (simp add: eval_defs example_defs const_defs)
qed

text \<open>
  Claim C2. When both tag specifications parse, \<open>getTags\<close> returns the default tags
  overlaid with the annotation tags (\<open>m ++ n\<close> is \<open>n\<close> where \<open>n\<close> is defined and \<open>m\<close>
  elsewhere): a free-form key has the annotation's value if the annotation sets it,
  else the default's; a defined tag, looked up by namespace and key, likewise, so the
  sibling keys of a namespace survive; and the namespaces of the result are those of
  the defaults together with those of the annotation.
\<close>

theorem getTags_merge:
  assumes "parseTags (Getenv env defaultTagsEnvVar) = Inr (defaultDefinedTags, defaultFreeformTags)"
    and "parseTags (index_map annotations ociTagAnnotation) = Inr (definedTags, freeformTags)"
  shows "\<exists>defined freeform. getTags env annotations = Inr (defined, freeform) \<and>
           map_of freeform = map_of defaultFreeformTags ++ map_of freeformTags \<and>
           lookupDefined defined = lookupDefined defaultDefinedTags ++ lookupDefined definedTags \<and>
           fst ` set defined = fst ` set defaultDefinedTags \<union> fst ` set definedTags"
proof -
  from parseTags_distinct [OF assms(2)]
  have dd: "distinctDefined definedTags" and df: "distinct (map fst freeformTags)" by simp_all
  from assms have "getTags env annotations =
      Inr (mergeDefined definedTags defaultDefinedTags, mergeFreeform freeformTags defaultFreeformTags)"
    by (simp add: getTags_def)
  with lookupDefined_mergeDefined [OF dd, of defaultDefinedTags]
    map_of_mergeFreeform [OF df, of defaultFreeformTags]
  show ?thesis by simp
qed

theorem getTags_merge_witness:
  "getTags [defaultTagsEnvVar \<mapsto> ''a=1,ns.x=9'']
     [ociTagAnnotation \<mapsto> ''a=2,c=3,ns.x=10,ns.y=5''] =
     Inr ([(''ns'', [(''x'', ''10''), (''y'', ''5'')])], [(''a'', ''2''), (''c'', ''3'')]) \<and>
   (\<exists>defined freeform.
     getTags [defaultTagsEnvVar \<mapsto> ''a=1,ns.x=9'']
       [ociTagAnnotation \<mapsto> ''a=2,c=3,ns.x=10,ns.y=5''] = Inr (defined, freeform) \<and>
     map_of freeform = map_of [(''a'', ''1'')] ++ map_of [(''a'', ''2''), (''c'', ''3'')] \<and>
     lookupDefined defined =
       lookupDefined [(''ns'', [(''x'', ''9'')])] ++
       lookupDefined [(''ns'', [(''x'', ''10''), (''y'', ''5'')])] \<and>
     fst ` set defined =
       fst ` set [(''ns'', [(''x'', ''9'')])] \<union>
       fst ` set [(''ns'', [(''x'', ''10''), (''y'', ''5'')])])"
proof -
  have h1: "parseTags (Getenv [defaultTagsEnvVar \<mapsto> ''a=1,ns.x=9''] defaultTagsEnvVar) =
      Inr ([(''ns'', [(''x'', ''9'')])], [(''a'', ''1'')])"
    by (simp add: Getenv_def parseTags_def)
  have h2: "parseTags (index_map [ociTagAnnotation \<mapsto> ''a=2,c=3,ns.x=10,ns.y=5''] ociTagAnnotation) =
      Inr ([(''ns'', [(''x'', ''10''), (''y'', ''5'')])], [(''a'', ''2''), (''c'', ''3'')])"
    by (simp add: index_map_def parseTags_def)
  have "getTags [defaultTagsEnvVar \<mapsto> ''a=1,ns.x=9'']
     [ociTagAnnotation \<mapsto> ''a=2,c=3,ns.x=10,ns.y=5''] =
     Inr ([(''ns'', [(''x'', ''10''), (''y'', ''5'')])], [(''a'', ''2''), (''c'', ''3'')])"
    using h1 h2 by (simp add: getTags_def)
  with getTags_merge [OF h1 h2] show ?thesis by blast
qed

text \<open>
  Claim C3, as amended. \<open>parseTags\<close> maps the empty string to two empty maps. For a
  non-empty string, cut at the commas: if the result is an error, then some piece is
  not well formed (its number of \<^verbatim>\<open>=\<close> is not one, or its key has more than one \<^verbatim>\<open>.\<close>,
  that is more than two segments), all pieces before the first such piece are well
  formed, and the error is the format error for that piece: its message is the fixed
  text followed by the piece as \<^verbatim>\<open>%q\<close> writes it, which for a piece of printable ASCII
  without double quote and backslash is the piece itself between double quotes, so
  that the message then contains the piece. Otherwise all pieces are well formed, the
  free-form map holds exactly the pieces whose key has no \<^verbatim>\<open>.\<close> (key to value, a later
  piece overriding an earlier one), and the defined map holds exactly the pieces
  whose key has one \<^verbatim>\<open>.\<close>, under the segment before it as namespace and the segment
  after it as key.
\<close>

theorem parseTags_spec:
  "parseTags [] = Inr ([], []) \<and>
   (tagStr \<noteq> [] \<longrightarrow>
      (case parseTags tagStr of
         Inl err \<Rightarrow>
           \<exists>ps p qs msg. Split tagStr CHR '','' = ps @ p # qs \<and> list_all wellFormed ps \<and>
             \<not> wellFormed p \<and>
             err = Errorf_q ''tag format must follow (<namespace>.)<tagkey>=<value>: %q'' p \<and>
             errorMessage other err = Some msg \<and>
             msg = ''tag format must follow (<namespace>.)<tagkey>=<value>: '' @ Quote other p \<and>
             (list_all plainByte p \<longrightarrow>
                Quote other p = CHR 0x22 # p @ [CHR 0x22] \<and> Contains msg p)
       | Inr (defined, freeform) \<Rightarrow>
           list_all wellFormed (Split tagStr CHR '','') \<and>
           map_of freeform = map_of (rev (freeformEntries (Split tagStr CHR '',''))) \<and>
           lookupDefined defined = map_of (rev (definedEntries (Split tagStr CHR '',''))) \<and>
           fst ` set defined = (fst \<circ> fst) ` set (definedEntries (Split tagStr CHR '',''))))"
proof (intro conjI impI)
  show "parseTags [] = Inr ([], [])" by (simp add: parseTags_def)
next
  assume ne: "tagStr \<noteq> []"
  show "case parseTags tagStr of
         Inl err \<Rightarrow>
           \<exists>ps p qs msg. Split tagStr CHR '','' = ps @ p # qs \<and> list_all wellFormed ps \<and>
             \<not> wellFormed p \<and>
             err = Errorf_q ''tag format must follow (<namespace>.)<tagkey>=<value>: %q'' p \<and>
             errorMessage other err = Some msg \<and>
             msg = ''tag format must follow (<namespace>.)<tagkey>=<value>: '' @ Quote other p \<and>
             (list_all plainByte p \<longrightarrow>
                Quote other p = CHR 0x22 # p @ [CHR 0x22] \<and> Contains msg p)
       | Inr (defined, freeform) \<Rightarrow>
           list_all wellFormed (Split tagStr CHR '','') \<and>
           map_of freeform = map_of (rev (freeformEntries (Split tagStr CHR '',''))) \<and>
           lookupDefined defined = map_of (rev (definedEntries (Split tagStr CHR '',''))) \<and>
           fst ` set defined = (fst \<circ> fst) ` set (definedEntries (Split tagStr CHR '',''))"
  proof (cases "list_all wellFormed (Split tagStr CHR '','')")
    case True
    from parseTags_wellFormed [OF ne True] True show ?thesis by auto
  next
    case False
    from parseTags_not_wellFormed [OF ne False] obtain ps p qs where
      s: "Split tagStr CHR '','' = ps @ p # qs" and ok: "list_all wellFormed ps"
      and bad: "\<not> wellFormed p" and err: "parseTags tagStr = Inl (tagFormatError p)"
      by blast
    let ?text = "''tag format must follow (<namespace>.)<tagkey>=<value>: ''"
    let ?msg = "?text @ Quote other p"
    have e: "tagFormatError p =
        Errorf_q ''tag format must follow (<namespace>.)<tagkey>=<value>: %q'' p"
      by (simp add: tagFormatError_def)
    have m: "errorMessage other (tagFormatError p) = Some ?msg"
      by (rule tagFormatError_message)
    have c: "Quote other p = CHR 0x22 # p @ [CHR 0x22] \<and> Contains ?msg p"
      if pl: "list_all plainByte p"
    proof -
      have q: "Quote other p = CHR 0x22 # p @ [CHR 0x22]"
        using pl by (rule Quote_plain)
      have "Contains ((?text @ [CHR 0x22]) @ p @ [CHR 0x22]) p"
        by (rule Contains_middle)
      with q show ?thesis by simp
    qed
    show ?thesis
      unfolding err by (simp only: sum.case) (use s ok bad e m c in blast)
  qed
qed

theorem parseTags_spec_witness:
  "parseTags ''a=1,ns.b=2'' = Inr ([(''ns'', [(''b'', ''2'')])], [(''a'', ''1'')]) \<and>
   list_all wellFormed (Split ''a=1,ns.b=2'' CHR '','') \<and>
   parseTags ''bad'' = Inl (tagFormatError ''bad'') \<and>
   errorMessage noOther (tagFormatError ''bad'') =
     Some (''tag format must follow (<namespace>.)<tagkey>=<value>: '' @
           [CHR 0x22] @ ''bad'' @ [CHR 0x22]) \<and>
   parseTags ''a=1=2'' = Inl (tagFormatError ''a=1=2'') \<and>
   parseTags ''a.b.c=1'' = Inl (tagFormatError ''a.b.c=1'')"
  using parseTags_spec [of "''a=1,ns.b=2''" noOther] parseTags_spec [of "''bad''" noOther]
  by (simp add: parseTags_def tagFormatError_message Quote_def)

text \<open>
  Claim C3 as stated, that the message contains the offending piece verbatim, fails
  for a piece with a double quote: the piece \<open>a\<close>, double quote, \<open>b\<close> has no \<^verbatim>\<open>=\<close>, and
  the message of its error has a backslash before the double quote, so the piece
  does not occur in it.
\<close>

theorem parseTags_message_counterexample:
  "parseTags [CHR ''a'', CHR 0x22, CHR ''b''] =
     Inl (tagFormatError [CHR ''a'', CHR 0x22, CHR ''b'']) \<and>
   errorMessage noOther (tagFormatError [CHR ''a'', CHR 0x22, CHR ''b'']) =
     Some (''tag format must follow (<namespace>.)<tagkey>=<value>: '' @
           [CHR 0x22, CHR ''a'', CHR 0x5C, CHR 0x22, CHR ''b'', CHR 0x22]) \<and>
   \<not> Contains (''tag format must follow (<namespace>.)<tagkey>=<value>: '' @
           [CHR 0x22, CHR ''a'', CHR 0x5C, CHR 0x22, CHR ''b'', CHR 0x22])
         [CHR ''a'', CHR 0x22, CHR ''b'']"
  by (simp add: parseTags_def tagFormatError_message Quote_def Contains_def upt_rec)

text \<open>
  Claim C4 does not hold of the code. The display name of the request is the raw value
  of the environment variable followed by the name of the claim; the trimmed prefix
  with its separator is computed into the local \<open>prefix\<close> after the request details
  have been built, and never read. For the prefix \<^verbatim>\<open>test\<close> the name sent is
  \<^verbatim>\<open>testpvc\<close>, not \<^verbatim>\<open>test-pvc\<close>; for a blank prefix it is the blank followed by
  \<^verbatim>\<open>pvc\<close>.
\<close>

theorem Provision_display_name_example:
  "map (DisplayName \<circ> CreateVolumeDetails)
     (fst (Provision examplePlugin (exampleBlock True 404) [volumePrefixEnvVarName \<mapsto> ''test'']
        (exampleOptions [ReadWriteOnce] [ResourceStorage \<mapsto> Quantity 10737418240 10737418240] Map.empty)
        exampleAD)) = [''testpvc''] \<and>
   prefix [volumePrefixEnvVarName \<mapsto> ''test''] @ ''pvc'' = ''test-pvc'' \<and>
   map (DisplayName \<circ> CreateVolumeDetails)
     (fst (Provision examplePlugin (exampleBlock True 404) [volumePrefixEnvVarName \<mapsto> '' '']
        (exampleOptions [ReadWriteOnce] [ResourceStorage \<mapsto> Quantity 10737418240 10737418240] Map.empty)
        exampleAD)) = ['' pvc''] \<and>
   prefix [volumePrefixEnvVarName \<mapsto> '' ''] @ ''pvc'' = ''pvc''"
  by (simp add: eval_defs example_defs const_defs prefix_def TrimSpace_def leadingSpace_def
      trailingSpace_def whiteSpace_def HasSuffix_def)

text \<open>
  Claim C5. If some requested access mode is not \<^verbatim>\<open>ReadWriteOnce\<close>, or the request has no
  storage capacity, \<open>Provision\<close> sends no create-volume request and returns an error
  with a message, hence no descriptor. With an unsupported access mode the message
  names such a mode; with supported modes and no capacity it says that the volume
  size could not be determined.
\<close>

theorem Provision_preconditions:
  "((\<exists>accessMode\<in>set (pvc_AccessModes (PVC options)). accessMode \<noteq> ReadWriteOnce) \<or>
    pvc_Requests (PVC options) ResourceStorage = None \<longrightarrow>
      fst (Provision plg block env options ad) = [] \<and>
      (\<exists>msg. snd (Provision plg block env options ad) = Inl (Error msg))) \<and>
   ((\<exists>accessMode\<in>set (pvc_AccessModes (PVC options)). accessMode \<noteq> ReadWriteOnce) \<longrightarrow>
      (\<exists>accessMode\<in>set (pvc_AccessModes (PVC options)). accessMode \<noteq> ReadWriteOnce \<and>
         snd (Provision plg block env options ad) =
           Inl (Error (''invalid access mode '' @ accessMode @ '' specified. Only ''
                       @ ReadWriteOnce @ '' is supported'')))) \<and>
   ((\<forall>accessMode\<in>set (pvc_AccessModes (PVC options)). accessMode = ReadWriteOnce) \<and>
    pvc_Requests (PVC options) ResourceStorage = None \<longrightarrow>
      snd (Provision plg block env options ad) =
        Inl (Error ''could not determine volume size for PVC''))"
proof -
  let ?modes = "pvc_AccessModes (PVC options)"
  let ?P = "Provision plg block env options ad"
  have bad: "fst ?P = [] \<and> (\<exists>accessMode\<in>set ?modes. accessMode \<noteq> ReadWriteOnce \<and>
         snd ?P = Inl (Error (''invalid access mode '' @ accessMode @ '' specified. Only ''
                       @ ReadWriteOnce @ '' is supported'')))"
    if "\<exists>accessMode\<in>set ?modes. accessMode \<noteq> ReadWriteOnce"
  proof -
    from that have "accessModes_loop ?modes \<noteq> None" by (simp add: accessModes_loop_None)
    then obtain err where e: "accessModes_loop ?modes = Some err" by blast
    from accessModes_loop_Some [OF e] e show ?thesis by (auto simp: Provision_def)
  qed
  have nocap: "?P = ([], Inl (Error ''could not determine volume size for PVC''))"
    if "\<forall>accessMode\<in>set ?modes. accessMode = ReadWriteOnce"
      "pvc_Requests (PVC options) ResourceStorage = None"
  proof -
    from that(1) have "accessModes_loop ?modes = None" by (simp add: accessModes_loop_None)
    with that(2) show ?thesis by (simp add: Provision_def)
  qed
  show ?thesis
  proof (intro conjI impI)
    assume a: "(\<exists>accessMode\<in>set ?modes. accessMode \<noteq> ReadWriteOnce) \<or>
      pvc_Requests (PVC options) ResourceStorage = None"
    show "fst ?P = []"
    proof (cases "\<exists>accessMode\<in>set ?modes. accessMode \<noteq> ReadWriteOnce")
      case True
      then show ?thesis using bad by blast
    next
      case False
      with a nocap show ?thesis by simp
    qed
    show "\<exists>msg. snd ?P = Inl (Error msg)"
    proof (cases "\<exists>accessMode\<in>set ?modes. accessMode \<noteq> ReadWriteOnce")
      case True
      then show ?thesis using bad by blast
    next
      case False
      with a nocap show ?thesis by simp
    qed
  next
    assume "\<exists>accessMode\<in>set ?modes. accessMode \<noteq> ReadWriteOnce"
    then show "\<exists>accessMode\<in>set ?modes. accessMode \<noteq> ReadWriteOnce \<and>
         snd ?P = Inl (Error (''invalid access mode '' @ accessMode @ '' specified. Only ''
                       @ ReadWriteOnce @ '' is supported''))"
      using bad by blast
  next
    assume "(\<forall>accessMode\<in>set ?modes. accessMode = ReadWriteOnce) \<and>
      pvc_Requests (PVC options) ResourceStorage = None"
    then show "snd ?P = Inl (Error ''could not determine volume size for PVC'')"
      using nocap by simp
  qed
qed

theorem Provision_preconditions_witness:
  "Provision examplePlugin (exampleBlock True 404) Map.empty
     (exampleOptions [ReadWriteOnce, ''ReadWriteMany''] [ResourceStorage \<mapsto> Quantity 1 1] Map.empty)
     exampleAD =
     ([], Inl (Error ''invalid access mode ReadWriteMany specified. Only ReadWriteOnce is supported'')) \<and>
   Provision examplePlugin (exampleBlock True 404) Map.empty
     (exampleOptions [ReadWriteOnce] Map.empty Map.empty) exampleAD =
     ([], Inl (Error ''could not determine volume size for PVC''))"
  using Provision_preconditions [of
      "exampleOptions [ReadWriteOnce, ''ReadWriteMany''] [ResourceStorage \<mapsto> Quantity 1 1] Map.empty"
      examplePlugin "exampleBlock True 404" Map.empty exampleAD]
    Provision_preconditions [of "exampleOptions [ReadWriteOnce] Map.empty Map.empty"
      examplePlugin "exampleBlock True 404" Map.empty exampleAD]
  by (simp add: eval_defs example_defs const_defs)

text \<open>
  Claim C6. For a descriptor that carries the volume identifier, \<open>Delete\<close> sends one
  delete-volume request for that identifier; it returns no error when the response
  has the status 404 (not found), and otherwise exactly the error, if any, that the
  call returned.
\<close>

theorem Delete_not_found:
  assumes "pv_Annotations volume ociVolumeID = Some volID"
    and "DeleteVolume (client block) \<lparr>VolumeId = volID\<rparr> = (response, err)"
  shows "Delete block volume =
           ([\<lparr>VolumeId = volID\<rparr>],
            if (\<exists>raw. RawResponse response = Some raw \<and> StatusCode raw = 404) then None else err)"
  using assms by (auto simp: Delete_def StatusNotFound_def split: option.splits)

theorem Delete_not_found_witness:
  "Delete (exampleBlock True 404) (exampleVolume [ociVolumeID \<mapsto> ''ocid1.volume.oc1.phx.example'']) =
     ([\<lparr>VolumeId = ''ocid1.volume.oc1.phx.example''\<rparr>], None) \<and>
   Delete (exampleBlock True 500) (exampleVolume [ociVolumeID \<mapsto> ''ocid1.volume.oc1.phx.example'']) =
     ([\<lparr>VolumeId = ''ocid1.volume.oc1.phx.example''\<rparr>], Some (ExternalError ''Service error''))"
proof -
  let ?volume = "exampleVolume [ociVolumeID \<mapsto> ''ocid1.volume.oc1.phx.example'']"
  have h1: "pv_Annotations ?volume ociVolumeID = Some ''ocid1.volume.oc1.phx.example''"
    by (simp add: exampleVolume_def)
  have h2: "DeleteVolume (client (exampleBlock True status))
              \<lparr>VolumeId = ''ocid1.volume.oc1.phx.example''\<rparr> =
            (\<lparr>RawResponse = Some \<lparr>StatusCode = status\<rparr>\<rparr>, Some (ExternalError ''Service error''))"
    for status
    by (simp add: exampleBlock_def exampleClient_def)
  show ?thesis
    using Delete_not_found [OF h1 h2 [of 404]] Delete_not_found [OF h1 h2 [of 500]] by simp
qed

text \<open>
  Claim C7. For a descriptor without the volume-identifier annotation, \<open>Delete\<close> sends
  no delete-volume request and returns the error of its own that says the annotation
  was not found.
\<close>

theorem Delete_missing_identifier:
  assumes "pv_Annotations volume ociVolumeID = None"
  shows "Delete block volume = ([], Some (Error ''volumeid annotation not found on PV''))"
  using assms by (simp add: Delete_def)

theorem Delete_missing_identifier_witness:
  "Delete (exampleBlock True 404) (exampleVolume Map.empty) =
     ([], Some (Error ''volumeid annotation not found on PV''))"
proof -
  have h: "pv_Annotations (exampleVolume Map.empty) ociVolumeID = None"
    by (simp add: exampleVolume_def)
  show ?thesis using Delete_missing_identifier [OF h] .
qed

text \<open>
  Claim C8. If the default tag specification or the annotation's tag specification
  fails to parse, \<open>getTags\<close> returns an error, namely the error of a failing parse,
  and no maps; and \<open>Provision\<close> sends no create-volume request and returns an error,
  hence no descriptor.
\<close>

theorem tag_error_aborts:
  assumes "(\<exists>err. parseTags (Getenv env defaultTagsEnvVar) = Inl err) \<or>
           (\<exists>err. parseTags (index_map (pvc_Annotations (PVC options)) ociTagAnnotation) = Inl err)"
  shows "(\<exists>err. getTags env (pvc_Annotations (PVC options)) = Inl err \<and>
            (parseTags (Getenv env defaultTagsEnvVar) = Inl err \<or>
             parseTags (index_map (pvc_Annotations (PVC options)) ociTagAnnotation) = Inl err)) \<and>
         fst (Provision plg block env options ad) = [] \<and>
         (\<exists>err. snd (Provision plg block env options ad) = Inl err)"
proof -
  have "\<exists>err. getTags env (pvc_Annotations (PVC options)) = Inl err \<and>
            (parseTags (Getenv env defaultTagsEnvVar) = Inl err \<or>
             parseTags (index_map (pvc_Annotations (PVC options)) ociTagAnnotation) = Inl err)"
  proof (cases "parseTags (Getenv env defaultTagsEnvVar)")
    case (Inl e)
    then show ?thesis by (simp add: getTags_def)
  next
    case (Inr r)
    with assms obtain err where
      "parseTags (index_map (pvc_Annotations (PVC options)) ociTagAnnotation) = Inl err"
      by auto
    with Inr show ?thesis by (cases r) (simp add: getTags_def)
  qed
  then obtain err where g: "getTags env (pvc_Annotations (PVC options)) = Inl err"
    and e: "parseTags (Getenv env defaultTagsEnvVar) = Inl err \<or>
             parseTags (index_map (pvc_Annotations (PVC options)) ociTagAnnotation) = Inl err"
    by blast
  have "fst (Provision plg block env options ad) = [] \<and>
         (\<exists>err. snd (Provision plg block env options ad) = Inl err)"
    using g by (auto simp: Provision_def Let_def split: prod.splits option.splits sum.splits if_splits)
  with g e show ?thesis by blast
qed

theorem tag_error_aborts_witness:
  "getTags [defaultTagsEnvVar \<mapsto> ''bad''] Map.empty = Inl (tagFormatError ''bad'') \<and>
   Provision examplePlugin (exampleBlock True 404) [defaultTagsEnvVar \<mapsto> ''bad'']
     (exampleOptions [ReadWriteOnce] [ResourceStorage \<mapsto> Quantity 1 1] Map.empty) exampleAD =
     ([], Inl (tagFormatError ''bad'')) \<and>
   Provision examplePlugin (exampleBlock True 404) Map.empty
     (exampleOptions [ReadWriteOnce] [ResourceStorage \<mapsto> Quantity 1 1]
        [ociTagAnnotation \<mapsto> ''a=1=2'']) exampleAD =
     ([], Inl (tagFormatError ''a=1=2''))"
  using tag_error_aborts [of "[defaultTagsEnvVar \<mapsto> ''bad'']"
      "exampleOptions [ReadWriteOnce] [ResourceStorage \<mapsto> Quantity 1 1] Map.empty"
      examplePlugin "exampleBlock True 404" exampleAD]
    tag_error_aborts [of Map.empty
      "exampleOptions [ReadWriteOnce] [ResourceStorage \<mapsto> Quantity 1 1]
        [ociTagAnnotation \<mapsto> ''a=1=2'']"
      examplePlugin "exampleBlock True 404" exampleAD]
  by (simp add: eval_defs example_defs const_defs)

text \<open>
  Claim C10. \<open>parseTags\<close> does not ask for non-empty names: a piece \<^verbatim>\<open>=v\<close> gives the
  free-form tag with the empty key, a piece \<^verbatim>\<open>.k=v\<close> gives the defined tag \<open>k\<close> under
  the empty namespace (for \<open>k\<close> and \<open>v\<close> free of the separators), and a non-empty
  specification is accepted as soon as every piece has two segments around \<^verbatim>\<open>=\<close> and
  its key at most two segments around \<^verbatim>\<open>.\<close>.
\<close>

theorem parseTags_accepts_empty_names:
  "(CHR '','' \<notin> set v \<and> CHR ''='' \<notin> set v \<longrightarrow>
      parseTags (CHR ''='' # v) = Inr ([], [([], v)])) \<and>
   (CHR '','' \<notin> set k \<and> CHR ''='' \<notin> set k \<and> CHR ''.'' \<notin> set k \<and>
    CHR '','' \<notin> set v \<and> CHR ''='' \<notin> set v \<longrightarrow>
      parseTags (CHR ''.'' # k @ CHR ''='' # v) = Inr ([([], [(k, v)])], [])) \<and>
   (tagStr \<noteq> [] \<and>
    list_all (\<lambda>tag. length (Split tag CHR ''='') = 2 \<and>
                     length (Split (hd (Split tag CHR ''='')) CHR ''.'') \<le> 2)
      (Split tagStr CHR '','') \<longrightarrow>
      (\<exists>defined freeform. parseTags tagStr = Inr (defined, freeform)))"
proof (intro conjI impI)
  assume "CHR '','' \<notin> set v \<and> CHR ''='' \<notin> set v"
  then show "parseTags (CHR ''='' # v) = Inr ([], [([], v)])"
    by (simp add: parseTags_def Split_no_sep)
next
  assume a: "CHR '','' \<notin> set k \<and> CHR ''='' \<notin> set k \<and> CHR ''.'' \<notin> set k \<and>
    CHR '','' \<notin> set v \<and> CHR ''='' \<notin> set v"
  then have "Split (CHR ''.'' # k @ CHR ''='' # v) CHR '','' = [CHR ''.'' # k @ CHR ''='' # v]"
    by (intro Split_no_sep) auto
  moreover have "Split (CHR ''.'' # k @ CHR ''='' # v) CHR ''='' = [CHR ''.'' # k, v]"
    using a by (simp add: Split_append_sep Split_no_sep)
  moreover have "Split (CHR ''.'' # k) CHR ''.'' = [[], k]"
    using a by (simp add: Split_no_sep)
  ultimately show "parseTags (CHR ''.'' # k @ CHR ''='' # v) = Inr ([([], [(k, v)])], [])"
    by (simp add: parseTags_def)
next
  assume a: "tagStr \<noteq> [] \<and>
    list_all (\<lambda>tag. length (Split tag CHR ''='') = 2 \<and>
                     length (Split (hd (Split tag CHR ''='')) CHR ''.'') \<le> 2)
      (Split tagStr CHR '','')"
  then have "list_all wellFormed (Split tagStr CHR '','')"
    by (simp add: list_all_iff wellFormed_def length_Split hd_Split tagKey_def)
  with a parseTags_wellFormed [of tagStr] show "\<exists>defined freeform. parseTags tagStr = Inr (defined, freeform)"
    by blast
qed

theorem parseTags_accepts_empty_names_witness:
  "parseTags ''=v'' = Inr ([], [('''', ''v'')]) \<and>
   parseTags ''.k=v'' = Inr ([('''', [(''k'', ''v'')])], []) \<and>
   (\<exists>defined freeform. parseTags ''=v,.k=v'' = Inr (defined, freeform))"
  using parseTags_accepts_empty_names [of "''v''" "''k''" "''=v,.k=v''"]
  by simp

end
